theory Spec2Isabelle
  imports Complex_Main "HOL-Library.Sublist"
begin

section \<open>Python values, dictionaries and exceptions\<close>

text \<open>
  The pipeline stages of \<^verbatim>\<open>semantics_description.py\<close> work on the objects that
  \<^verbatim>\<open>json.load\<close> and \<^verbatim>\<open>orjson.loads\<close> build: \<^verbatim>\<open>None\<close>, booleans, integers,
  floats, strings, lists and dictionaries with string keys. A string is a list of code
  points below 256. A float is given by its exact rational value (a JSON text has no
  literal for an infinity or a NaN). A dictionary is an association list in insertion
  order; a key is looked up at its first entry.
\<close>

datatype pyval =
    PyNone
  | PyBool bool
  | PyInt int
  | PyFloat rat
  | PyStr string
  | PyList "pyval list"
  | PyDict "(string \<times> pyval) list"

type_synonym pydict = "(string \<times> pyval) list"

text \<open>
  The exceptions the stages can raise. \<open>KeyError k\<close> is a missing dictionary key \<open>k\<close>;
  \<open>External msg\<close> is whatever the generator raises.
\<close>

datatype pyerr =
    KeyError string
  | TypeError
  | IndexError
  | AttributeError
  | External string

text \<open>\<^verbatim>\<open>d.get(k)\<close> on a dictionary: \<^verbatim>\<open>None\<close> when the key is missing.\<close>

definition dict_get :: "pydict \<Rightarrow> string \<Rightarrow> pyval" where
  "dict_get d k = (case map_of d k of None \<Rightarrow> PyNone | Some v \<Rightarrow> v)"

text \<open>\<^verbatim>\<open>d[k]\<close> on a dictionary: \<^verbatim>\<open>KeyError\<close> when the key is missing.\<close>

definition dict_item :: "pydict \<Rightarrow> string \<Rightarrow> pyerr + pyval" where
  "dict_item d k = (case map_of d k of None \<Rightarrow> Inl (KeyError k) | Some v \<Rightarrow> Inr v)"

text \<open>
  \<^verbatim>\<open>x[k]\<close> with a string \<open>k\<close> on any value: only a dictionary can be subscripted by a
  string; a list or a string wants an integer index and every other value is not
  subscriptable, all of which is a \<^verbatim>\<open>TypeError\<close>.
\<close>

fun getitem_str :: "pyval \<Rightarrow> string \<Rightarrow> pyerr + pyval" where
  "getitem_str (PyDict d) k = dict_item d k"
| "getitem_str _ k = Inl TypeError"

text \<open>
  \<^verbatim>\<open>x[0]\<close> on any value: the first element of a list or the first character of a
  string (\<^verbatim>\<open>IndexError\<close> when empty); a dictionary of string keys has no key \<open>0\<close>
  (\<^verbatim>\<open>KeyError\<close>); every other value is not subscriptable.
\<close>

fun getitem_zero :: "pyval \<Rightarrow> pyerr + pyval" where
  "getitem_zero (PyList []) = Inl IndexError"
| "getitem_zero (PyList (x # xs)) = Inr x"
| "getitem_zero (PyStr []) = Inl IndexError"
| "getitem_zero (PyStr (c # cs)) = Inr (PyStr [c])"
| "getitem_zero (PyDict d) = Inl (KeyError ''0'')"
| "getitem_zero _ = Inl TypeError"

text \<open>
  \<^verbatim>\<open>for x in v\<close>: a list gives its elements, a dictionary its keys, a string its
  characters; every other value is not iterable.
\<close>

fun py_iter :: "pyval \<Rightarrow> pyerr + pyval list" where
  "py_iter (PyList xs) = Inr xs"
| "py_iter (PyDict d) = Inr (map (\<lambda>kv. PyStr (fst kv)) d)"
| "py_iter (PyStr s) = Inr (map (\<lambda>c. PyStr [c]) s)"
| "py_iter _ = Inl TypeError"

text \<open>
  \<^verbatim>\<open>v in names\<close> for a list of strings \<open>names\<close>: \<^verbatim>\<open>==\<close> with a string holds for an
  equal string only.
\<close>

fun in_str_list :: "pyval \<Rightarrow> string list \<Rightarrow> bool" where
  "in_str_list (PyStr s) names = (s \<in> set names)"
| "in_str_list _ names = False"

section \<open>Whitespace\<close>

text \<open>
  The characters for which \<^verbatim>\<open>str.isspace\<close> holds, among the code points below 256:
  TAB, LF, VT, FF, CR, FS, GS, RS, US, SPACE, NEL and NBSP. \<^verbatim>\<open>str.split()\<close> and
  \<^verbatim>\<open>str.strip()\<close> use this set.
\<close>

definition is_space :: "char \<Rightarrow> bool" where
  "is_space c \<longleftrightarrow> (of_char c :: nat) \<in> {9, 10, 11, 12, 13, 28, 29, 30, 31, 32, 133, 160}"

text \<open>\<^verbatim>\<open>text.replace("\n", " ")\<close>.\<close>

definition replace_newlines :: "string \<Rightarrow> string" where
  "replace_newlines text = map (\<lambda>c. if c = CHR 0x0A then CHR '' '' else c) text"

text \<open>
  \<^verbatim>\<open>text.split()\<close>: the maximal runs of non-whitespace characters, in order. The first
  argument is the word read so far.
\<close>

fun split_from :: "string \<Rightarrow> string \<Rightarrow> string list" where
  "split_from w [] = (if w = [] then [] else [w])"
| "split_from w (c # cs) =
     (if is_space c then (if w = [] then split_from [] cs else w # split_from [] cs)
      else split_from (w @ [c]) cs)"

definition split_ws :: "string \<Rightarrow> string list" where
  "split_ws text = split_from [] text"

text \<open>\<^verbatim>\<open>" ".join(words)\<close>.\<close>

fun join_space :: "string list \<Rightarrow> string" where
  "join_space [] = []"
| "join_space [w] = w"
| "join_space (w # v # ws) = w @ CHR '' '' # join_space (v # ws)"

text \<open>\<^verbatim>\<open>text.strip()\<close>.\<close>

definition strip :: "string \<Rightarrow> string" where
  "strip text = rev (dropWhile is_space (rev (dropWhile is_space text)))"

text \<open>
  The first two statements of \<^verbatim>\<open>normalize\<close>: newlines to spaces, then every run of
  whitespace to one space, none at either end.
\<close>

definition collapse_ws :: "string \<Rightarrow> string" where
  "collapse_ws text = join_space (split_ws (replace_newlines text))"

section \<open>Dictionaries keyed by arbitrary hashable values\<close>

text \<open>
  The dictionary that \<^verbatim>\<open>post_process\<close> builds is keyed by whatever \<^verbatim>\<open>model["name"]\<close>
  is. A list or a dictionary is not hashable. Keys are compared with \<^verbatim>\<open>==\<close>, under
  which a boolean, an integer and a float of the same numeric value are one key.
\<close>

type_synonym keydict = "(pyval \<times> pyval) list"

fun hashable :: "pyval \<Rightarrow> bool" where
  "hashable (PyList xs) = False"
| "hashable (PyDict d) = False"
| "hashable _ = True"

fun num_of :: "pyval \<Rightarrow> rat option" where
  "num_of (PyBool b) = Some (if b then 1 else 0)"
| "num_of (PyInt i) = Some (of_int i)"
| "num_of (PyFloat r) = Some r"
| "num_of _ = None"

definition key_eq :: "pyval \<Rightarrow> pyval \<Rightarrow> bool" where
  "key_eq a b =
     (case num_of a of
        Some x \<Rightarrow> (case num_of b of Some y \<Rightarrow> x = y | None \<Rightarrow> False)
      | None \<Rightarrow> (case num_of b of Some y \<Rightarrow> False | None \<Rightarrow> a = b))"

text \<open>
  \<^verbatim>\<open>d[k] = v\<close>: an entry with an equal key keeps its place and its key object and
  takes the new value; otherwise the entry is added at the end.
\<close>

fun key_set :: "keydict \<Rightarrow> pyval \<Rightarrow> pyval \<Rightarrow> keydict" where
  "key_set [] k v = [(k, v)]"
| "key_set ((k', v') # d) k v =
     (if key_eq k' k then (k', v) # d else (k', v') # key_set d k v)"


section \<open>The stage \<^verbatim>\<open>post_process\<close>\<close>

text \<open>
  \<^verbatim>\<open>orjson.loads\<close> is a parameter \<open>loads\<close> of the model: \<open>Inr v\<close> is the parsed value,
  \<open>Inl msg\<close> is \<^verbatim>\<open>orjson.JSONDecodeError\<close> with its message. The log of
  \<^verbatim>\<open>logger.error\<close> calls is returned beside the result.
\<close>

type_synonym loads_fn = "string \<Rightarrow> string + pyval"

text \<open>
  \<^verbatim>\<open>
  def normalize(text: str) -> str:
      text = text.replace("\n", " ")
      text = " ".join(text.split())
      try:
          text_dict = orjson.loads(text.strip())
          return text_dict
      except orjson.JSONDecodeError as e:
          logger.error(f"Error decoding JSON: {e}")
          return {}
  \<close>
  (\<open>normalize\<close> is a constant of the library, hence the longer name.)
\<close>

definition normalize_text :: "loads_fn \<Rightarrow> string \<Rightarrow> string list \<times> pyval" where
  "normalize_text loads text =
     (case loads (strip (collapse_ws text)) of
        Inr text_dict \<Rightarrow> ([], text_dict)
      | Inl e \<Rightarrow> ([''Error decoding JSON: '' @ e], PyDict []))"

text \<open>
  The dictionary comprehension \<^verbatim>\<open>{model["name"]: model for model in ...}\<close>, from the
  dictionary built so far: the key is evaluated, then stored; the first exception ends
  the loop.
\<close>

fun index_by_name :: "keydict \<Rightarrow> pyval list \<Rightarrow> pyerr + keydict" where
  "index_by_name d [] = Inr d"
| "index_by_name d (model # rest) =
     (case getitem_str model ''name'' of
        Inl e \<Rightarrow> Inl e
      | Inr k \<Rightarrow> if hashable k then index_by_name (key_set d k model) rest
                 else Inl TypeError)"

text \<open>
  \<^verbatim>\<open>
  reply = generate.get("replies")[0]
  normalized = normalize(reply)
  return {model["name"]: model for model in normalized["models"]}
  \<close>
  A reply that is not a string has no \<^verbatim>\<open>replace\<close> method.
\<close>

definition post_process :: "loads_fn \<Rightarrow> pydict \<Rightarrow> string list \<times> (pyerr + keydict)" where
  "post_process loads generate =
     (case getitem_zero (dict_get generate ''replies'') of
        Inl e \<Rightarrow> ([], Inl e)
      | Inr reply \<Rightarrow>
          (case reply of
             PyStr text \<Rightarrow>
               (case normalize_text loads text of
                  (logged, normalized) \<Rightarrow>
                    (logged,
                     case getitem_str normalized ''models'' of
                       Inl e \<Rightarrow> Inl e
                     | Inr models \<Rightarrow>
                         (case py_iter models of
                            Inl e \<Rightarrow> Inl e
                          | Inr ms \<Rightarrow> index_by_name [] ms)))
           | _ \<Rightarrow> ([], Inl AttributeError)))"

section \<open>A reader for JSON texts\<close>

text \<open>
  \<^verbatim>\<open>orjson\<close> is a library outside the repository. The theorems about \<open>post_process\<close>
  hold for every reader \<open>loads\<close>; where a concrete text is evaluated, this reader of the
  JSON grammar (RFC 8259) is the instance. A number with a fraction or an exponent is
  read as its exact decimal value. A \<^verbatim>\<open>\u\<close> escape is read for code points below 256.
\<close>

datatype token =
    TLBrace | TRBrace | TLBracket | TRBracket | TColon | TComma
  | TStr string
  | TAtom pyval

definition is_digit :: "char \<Rightarrow> bool" where
  "is_digit c \<longleftrightarrow> 48 \<le> (of_char c :: nat) \<and> (of_char c :: nat) \<le> 57"

definition is_json_ws :: "char \<Rightarrow> bool" where
  "is_json_ws c \<longleftrightarrow> (of_char c :: nat) \<in> {9, 10, 13, 32}"

text \<open>The characters a number or a literal name is made of.\<close>

definition is_atom_char :: "char \<Rightarrow> bool" where
  "is_atom_char c \<longleftrightarrow>
     is_digit c \<or> c \<in> set ''+-.'' \<or>
     (97 \<le> (of_char c :: nat) \<and> (of_char c :: nat) \<le> 122) \<or>
     (65 \<le> (of_char c :: nat) \<and> (of_char c :: nat) \<le> 90)"

fun digits_val :: "nat \<Rightarrow> string \<Rightarrow> nat" where
  "digits_val acc [] = acc"
| "digits_val acc (c # cs) = digits_val (10 * acc + (of_char c - 48)) cs"

definition hex_val :: "char \<Rightarrow> nat option" where
  "hex_val c =
     (let n = (of_char c :: nat) in
      if 48 \<le> n \<and> n \<le> 57 then Some (n - 48)
      else if 97 \<le> n \<and> n \<le> 102 then Some (n - 87)
      else if 65 \<le> n \<and> n \<le> 70 then Some (n - 55)
      else None)"

text \<open>The character a one-letter escape stands for.\<close>

definition unescape :: "char \<Rightarrow> char option" where
  "unescape c =
     (if c = CHR 0x22 then Some (CHR 0x22)
      else if c = CHR 0x5C then Some (CHR 0x5C)
      else if c = CHR ''/'' then Some (CHR ''/'')
      else if c = CHR ''b'' then Some (CHR 0x08)
      else if c = CHR ''f'' then Some (CHR 0x0C)
      else if c = CHR ''n'' then Some (CHR 0x0A)
      else if c = CHR ''r'' then Some (CHR 0x0D)
      else if c = CHR ''t'' then Some (CHR 0x09)
      else None)"

text \<open>
  The four hexadecimal digits after \<^verbatim>\<open>\u\<close>, as a character when the code point is
  below 256.
\<close>

definition unicode_escape :: "string \<Rightarrow> char option" where
  "unicode_escape ds =
     (case map hex_val ds of
        [Some a, Some b, Some c, Some d] \<Rightarrow>
          (if a = 0 \<and> b = 0 then Some (char_of (16 * c + d)) else None)
      | _ \<Rightarrow> None)"

text \<open>
  The rest of a string after its opening quote: the characters read so far, then the
  text left. The result is the string and the text after the closing quote.
\<close>

fun lex_string :: "string \<Rightarrow> string \<Rightarrow> (string \<times> string) option" where
  "lex_string acc [] = None"
| "lex_string acc [c] = (if c = CHR 0x22 then Some (acc, []) else None)"
| "lex_string acc (c # e # cs) =
     (if c = CHR 0x22 then Some (acc, e # cs)
      else if c = CHR 0x5C then
        (if e = CHR ''u'' then
           (case unicode_escape (take 4 cs) of
              None \<Rightarrow> None
            | Some ch \<Rightarrow> lex_string (acc @ [ch]) (drop 4 cs))
         else
           (case unescape e of
              None \<Rightarrow> None
            | Some ch \<Rightarrow> lex_string (acc @ [ch]) cs))
      else if (of_char c :: nat) < 32 then None
      else lex_string (acc @ [c]) (e # cs))"

text \<open>
  A number: an optional minus, an integer part without a leading zero, an optional
  fraction, an optional exponent.
\<close>

definition parse_exponent :: "string \<Rightarrow> int option" where
  "parse_exponent s =
     (case s of
        [] \<Rightarrow> Some 0
      | c # r \<Rightarrow>
          if c = CHR ''e'' \<or> c = CHR ''E'' then
            (let neg = (r \<noteq> [] \<and> hd r = CHR ''-'');
                 ds = (if r \<noteq> [] \<and> (hd r = CHR ''-'' \<or> hd r = CHR ''+'') then tl r else r)
             in if ds \<noteq> [] \<and> list_all is_digit ds
                then Some (if neg then - int (digits_val 0 ds) else int (digits_val 0 ds))
                else None)
          else None)"

definition parse_number :: "string \<Rightarrow> pyval option" where
  "parse_number s =
     (let neg = (s \<noteq> [] \<and> hd s = CHR ''-'');
          s1 = (if neg then tl s else s);
          ip = takeWhile is_digit s1;
          s2 = dropWhile is_digit s1
      in if ip = [] \<or> (1 < length ip \<and> hd ip = CHR ''0'') then None
         else if s2 = [] then
           Some (PyInt (if neg then - int (digits_val 0 ip) else int (digits_val 0 ip)))
         else
           (let has_frac = (hd s2 = CHR ''.'');
                fp = (if has_frac then takeWhile is_digit (tl s2) else []);
                s3 = (if has_frac then dropWhile is_digit (tl s2) else s2)
            in if has_frac \<and> fp = [] then None
               else
                 (case parse_exponent s3 of
                    None \<Rightarrow> None
                  | Some ex \<Rightarrow>
                      (let m = of_nat (digits_val 0 ip)
                               + of_nat (digits_val 0 fp) / 10 ^ length fp;
                           sc = (if 0 \<le> ex then 10 ^ nat ex else 1 / 10 ^ nat (- ex))
                       in Some (PyFloat ((if neg then - m else m) * sc))))))"

definition parse_atom :: "string \<Rightarrow> pyval option" where
  "parse_atom s =
     (if s = ''true'' then Some (PyBool True)
      else if s = ''false'' then Some (PyBool False)
      else if s = ''null'' then Some PyNone
      else parse_number s)"


text \<open>The lexer goes on with the text after the token, which is shorter.\<close>

lemma lex_string_shorter:
  "lex_string acc cs = Some (s, rest) \<Longrightarrow> length rest < length cs"
proof (induction acc cs rule: lex_string.induct)
  case (1 acc)
  then show ?case by simp
next
  case (2 acc c)
  then show ?case by (simp split: if_splits)
next
  case (3 acc c e cs)
  show ?case
  proof (cases "c = CHR 0x22")
    case True
    with 3(4) show ?thesis by simp
  next
    case q: False
    show ?thesis
    proof (cases "c = CHR 0x5C")
      case b: True
      show ?thesis
      proof (cases "e = CHR ''u''")
        case True
        with 3(4) q b obtain ch where ch: "unicode_escape (take 4 cs) = Some ch"
          and r: "lex_string (acc @ [ch]) (drop 4 cs) = Some (s, rest)"
          by (auto split: option.splits)
        from 3(1)[OF q b True ch r] show ?thesis by simp
      next
        case False
        with 3(4) q b obtain ch where ch: "unescape e = Some ch"
          and r: "lex_string (acc @ [ch]) cs = Some (s, rest)"
          by (auto split: option.splits)
        from 3(2)[OF q b False ch r] show ?thesis by simp
      qed
    next
      case b: False
      with 3(4) q have c: "\<not> (of_char c :: nat) < 32"
        and r: "lex_string (acc @ [c]) (e # cs) = Some (s, rest)"
        by (auto split: if_splits)
      from 3(3)[OF q b c r] show ?thesis by simp
    qed
  qed
qed

text \<open>
  The tokens of a text. A number or a literal name is the maximal run of the characters
  such tokens are made of.
\<close>

function lex :: "string \<Rightarrow> token list option" where
  "lex [] = Some []"
| "lex (c # cs) =
     (if is_json_ws c then lex cs
      else if c = CHR ''{'' then map_option (Cons TLBrace) (lex cs)
      else if c = CHR ''}'' then map_option (Cons TRBrace) (lex cs)
      else if c = CHR ''['' then map_option (Cons TLBracket) (lex cs)
      else if c = CHR '']'' then map_option (Cons TRBracket) (lex cs)
      else if c = CHR '':'' then map_option (Cons TColon) (lex cs)
      else if c = CHR '','' then map_option (Cons TComma) (lex cs)
      else if c = CHR 0x22 then
        (case lex_string [] cs of
           None \<Rightarrow> None
         | Some (s, rest) \<Rightarrow> map_option (Cons (TStr s)) (lex rest))
      else if is_atom_char c then
        (case parse_atom (c # takeWhile is_atom_char cs) of
           None \<Rightarrow> None
         | Some v \<Rightarrow> map_option (Cons (TAtom v)) (lex (dropWhile is_atom_char cs)))
      else None)"
  by pat_completeness auto
termination
proof (relation "measure length")
  fix c cs x2 x y
  assume "lex_string [] cs = Some x2" "(x, y) = x2"
  then show "(y, c # cs) \<in> measure length"
    using lex_string_shorter [of "[]" cs x y] by simp
qed (simp_all add: length_dropWhile_le less_Suc_eq_le)

text \<open>
  The token list is read by a pushdown automaton: a frame for each array or object that
  is open (an object either between members or waiting for the value of a key), and a
  mode that says which tokens may come next.
\<close>

datatype frame = FArr "pyval list" | FObj pydict | FKey pydict string

datatype mode =
    MValue | MValueOrClose | MKey | MKeyOrClose | MColon string
  | MArrNext | MObjNext | MDone pyval

text \<open>
  \<^verbatim>\<open>d[k] = v\<close> on a dictionary of string keys: of two members with the same key the
  later value stays, at the place of the first.
\<close>

fun dict_set :: "pydict \<Rightarrow> string \<Rightarrow> pyval \<Rightarrow> pydict" where
  "dict_set [] k v = [(k, v)]"
| "dict_set ((k', v') # d) k v =
     (if k' = k then (k', v) # d else (k', v') # dict_set d k v)"

text \<open>A value is complete: it goes into the innermost open frame, or is the document.\<close>

fun reduce :: "frame list \<Rightarrow> pyval \<Rightarrow> (frame list \<times> mode) option" where
  "reduce [] v = Some ([], MDone v)"
| "reduce (FArr xs # st) v = Some (FArr (xs @ [v]) # st, MArrNext)"
| "reduce (FKey d k # st) v = Some (FObj (dict_set d k v) # st, MObjNext)"
| "reduce (FObj d # st) v = None"

fun open_value :: "frame list \<Rightarrow> token \<Rightarrow> (frame list \<times> mode) option" where
  "open_value st (TStr s) = reduce st (PyStr s)"
| "open_value st (TAtom v) = reduce st v"
| "open_value st TLBracket = Some (FArr [] # st, MValueOrClose)"
| "open_value st TLBrace = Some (FObj [] # st, MKeyOrClose)"
| "open_value st _ = None"

fun close_array :: "frame list \<Rightarrow> (frame list \<times> mode) option" where
  "close_array (FArr xs # st) = reduce st (PyList xs)"
| "close_array _ = None"

fun close_object :: "frame list \<Rightarrow> (frame list \<times> mode) option" where
  "close_object (FObj d # st) = reduce st (PyDict d)"
| "close_object _ = None"

fun begin_member :: "frame list \<Rightarrow> string \<Rightarrow> (frame list \<times> mode) option" where
  "begin_member (FObj d # st) k = Some (FKey d k # st, MValue)"
| "begin_member _ k = None"

fun step :: "frame list \<times> mode \<Rightarrow> token \<Rightarrow> (frame list \<times> mode) option" where
  "step (st, MValue) t = open_value st t"
| "step (st, MValueOrClose) t = (if t = TRBracket then close_array st else open_value st t)"
| "step (st, MKey) t = (case t of TStr k \<Rightarrow> Some (st, MColon k) | _ \<Rightarrow> None)"
| "step (st, MKeyOrClose) t =
     (case t of TStr k \<Rightarrow> Some (st, MColon k) | TRBrace \<Rightarrow> close_object st | _ \<Rightarrow> None)"
| "step (st, MColon k) t = (if t = TColon then begin_member st k else None)"
| "step (st, MArrNext) t =
     (case t of TComma \<Rightarrow> Some (st, MValue) | TRBracket \<Rightarrow> close_array st | _ \<Rightarrow> None)"
| "step (st, MObjNext) t =
     (case t of TComma \<Rightarrow> Some (st, MKey) | TRBrace \<Rightarrow> close_object st | _ \<Rightarrow> None)"
| "step (st, MDone v) t = None"

fun steps :: "frame list \<times> mode \<Rightarrow> token list \<Rightarrow> (frame list \<times> mode) option" where
  "steps s [] = Some s"
| "steps s (t # ts) = (case step s t of None \<Rightarrow> None | Some s' \<Rightarrow> steps s' ts)"

text \<open>The reader: the text must be exactly one value.\<close>

definition json_loads :: "string \<Rightarrow> string + pyval" where
  "json_loads text =
     (case lex text of
        None \<Rightarrow> Inl ''invalid token''
      | Some ts \<Rightarrow>
          (case steps ([], MValue) ts of
             Some ([], MDone v) \<Rightarrow> Inr v
           | _ \<Rightarrow> Inl ''invalid document''))"

section \<open>The stage \<^verbatim>\<open>picked_models\<close>\<close>

text \<open>
  \<^verbatim>\<open>
  def extract(model: dict) -> dict:
      return {
          "name": model["name"],
          "columns": model["columns"],
          "properties": model["properties"],
      }
  \<close>
  (\<open>extract\<close> is a command name of the prover, hence the longer name.)
\<close>

definition extract_model :: "pyval \<Rightarrow> pyerr + pyval" where
  "extract_model model =
     (case getitem_str model ''name'' of
        Inl e \<Rightarrow> Inl e
      | Inr n \<Rightarrow>
          (case getitem_str model ''columns'' of
             Inl e \<Rightarrow> Inl e
           | Inr c \<Rightarrow>
               (case getitem_str model ''properties'' of
                  Inl e \<Rightarrow> Inl e
                | Inr p \<Rightarrow>
                    Inr (PyDict [(''name'', n), (''columns'', c), (''properties'', p)]))))"

text \<open>
  The list comprehension
  \<^verbatim>\<open>[extract(model) for model in ... if model["name"] in selected_models]\<close>:
  for each model the condition is evaluated, then the element; the first exception ends
  the loop.
\<close>

fun pick :: "string list \<Rightarrow> pyval list \<Rightarrow> pyerr + pyval list" where
  "pick selected_models [] = Inr []"
| "pick selected_models (model # rest) =
     (case getitem_str model ''name'' of
        Inl e \<Rightarrow> Inl e
      | Inr n \<Rightarrow>
          if in_str_list n selected_models then
            (case extract_model model of
               Inl e \<Rightarrow> Inl e
             | Inr x \<Rightarrow>
                 (case pick selected_models rest of
                    Inl e \<Rightarrow> Inl e
                  | Inr xs \<Rightarrow> Inr (x # xs)))
          else pick selected_models rest)"

definition picked_models :: "pydict \<Rightarrow> string list \<Rightarrow> pyerr + pyval list" where
  "picked_models mdl selected_models =
     (case dict_item mdl ''models'' of
        Inl e \<Rightarrow> Inl e
      | Inr models \<Rightarrow>
          (case py_iter models of
             Inl e \<Rightarrow> Inl e
           | Inr ms \<Rightarrow> pick selected_models ms))"

section \<open>The stages \<^verbatim>\<open>prompt\<close> and \<^verbatim>\<open>generate\<close>, and the pipeline\<close>

text \<open>
  The two configured components of \<^verbatim>\<open>SemanticsDescription\<close> are objects of other
  libraries, so they are parameters. \<open>prompt_builder\<close> is \<^verbatim>\<open>PromptBuilder.run\<close>.
  \<open>generator\<close> is the \<^verbatim>\<open>run\<close> method of the provider's generator: it has a state
  of its own (of type \<open>'g\<close>), which every call may change, and it returns a reply
  envelope or raises.
\<close>

record 'g components =
  prompt_builder :: "pyval list \<Rightarrow> string \<Rightarrow> pyerr + pydict"
  generator :: "'g \<Rightarrow> pyval \<Rightarrow> (pyerr + pydict) \<times> 'g"

text \<open>
  \<^verbatim>\<open>
  def prompt(picked_models, user_prompt, prompt_builder) -> dict:
      return prompt_builder.run(picked_models=picked_models, user_prompt=user_prompt)
  \<close>
\<close>

definition prompt ::
  "pyval list \<Rightarrow> string \<Rightarrow> (pyval list \<Rightarrow> string \<Rightarrow> pyerr + pydict) \<Rightarrow> pyerr + pydict" where
  "prompt picked user_prompt builder = builder picked user_prompt"

text \<open>
  \<^verbatim>\<open>
  async def generate(prompt: dict, generator: Any) -> dict:
      return await generator.run(prompt=prompt.get("prompt"))
  \<close>
  One call of the generator, in no \<^verbatim>\<open>try\<close> block.
\<close>

definition generate ::
  "pydict \<Rightarrow> ('g \<Rightarrow> pyval \<Rightarrow> (pyerr + pydict) \<times> 'g) \<Rightarrow> 'g \<Rightarrow> (pyerr + pydict) \<times> 'g" where
  "generate p gen g = gen g (dict_get p ''prompt'')"

text \<open>
  \<^verbatim>\<open>SemanticsDescription.run\<close> logs one line and has the driver execute the node
  \<^verbatim>\<open>post_process\<close>. The driver computes the nodes that the parameter names of the
  stages ask for, each once, in the order \<^verbatim>\<open>picked_models\<close>, \<^verbatim>\<open>prompt\<close>,
  \<^verbatim>\<open>generate\<close>, \<^verbatim>\<open>post_process\<close>; an exception of a node ends the execution and
  reaches the caller. The result builder returns the dictionary of the nodes asked for,
  here the one entry \<^verbatim>\<open>post_process\<close>. The result is the log, the outcome, and the
  state of the generator afterwards.
\<close>

definition run ::
  "'g components \<Rightarrow> loads_fn \<Rightarrow> 'g \<Rightarrow> string \<Rightarrow> string list \<Rightarrow> pydict
   \<Rightarrow> (string list \<times> (pyerr + (string \<times> keydict) list)) \<times> 'g" where
  "run comps loads g user_prompt selected_models mdl =
     (let started = [''Semantics Description Generation pipeline is running...''] in
      case picked_models mdl selected_models of
        Inl e \<Rightarrow> ((started, Inl e), g)
      | Inr picked \<Rightarrow>
          (case prompt picked user_prompt (prompt_builder comps) of
             Inl e \<Rightarrow> ((started, Inl e), g)
           | Inr p \<Rightarrow>
               (case generate p (generator comps) g of
                  (Inl e, g') \<Rightarrow> ((started, Inl e), g')
                | (Inr envelope, g') \<Rightarrow>
                    (case post_process loads envelope of
                       (logged, Inl e) \<Rightarrow> ((started @ logged, Inl e), g')
                     | (logged, Inr d) \<Rightarrow>
                         ((started @ logged, Inr [(''post_process'', d)]), g')))))"

section \<open>Words\<close>

text \<open>What \<^verbatim>\<open>str.split()\<close> returns: non-empty words without a whitespace character.\<close>

definition no_space :: "string \<Rightarrow> bool" where
  "no_space w \<longleftrightarrow> (\<forall>c\<in>set w. \<not> is_space c)"

definition is_word :: "string \<Rightarrow> bool" where
  "is_word w \<longleftrightarrow> w \<noteq> [] \<and> no_space w"

section \<open>Notions used to state the properties of \<^verbatim>\<open>post_process\<close>\<close>

text \<open>A parsed document that is a dictionary with a key \<^verbatim>\<open>models\<close>.\<close>

fun has_models :: "pyval \<Rightarrow> bool" where
  "has_models (PyDict d) = (''models'' \<in> fst ` set d)"
| "has_models _ = False"




text \<open>
  The output format that \<^verbatim>\<open>system_prompt\<close> asks the generator for (the text between
  the second pair of code fences), and the value it denotes.
\<close>

definition output_format_example :: string where
  \<open>output_format_example = ''[\<newline>    {\<newline>        "name": "model",\<newline>        "columns": [\<newline>            {\<newline>                "name": "column_1",\<newline>                "properties": {\<newline>                    "description": "<description for column_1>"\<newline>                }\<newline>            },\<newline>            {\<newline>                "name": "column_2",\<newline>                "properties": {\<newline>                    "description": "<description for column_1>"\<newline>                }\<newline>            },\<newline>            {\<newline>                "name": "column_3",\<newline>                "properties": {\<newline>                    "description": "<description for column_1>"\<newline>                }\<newline>            }\<newline>        ],\<newline>        "properties": {\<newline>            "description": "<description for model>"\<newline>        }\<newline>    }\<newline>]''\<close>

definition output_format_value :: pyval where
  "output_format_value =
     PyList
       [PyDict
          [(''name'', PyStr ''model''),
           (''columns'',
            PyList
              [PyDict [(''name'', PyStr ''column_1''),
                       (''properties'', PyDict [(''description'', PyStr ''<description for column_1>'')])],
               PyDict [(''name'', PyStr ''column_2''),
                       (''properties'', PyDict [(''description'', PyStr ''<description for column_1>'')])],
               PyDict [(''name'', PyStr ''column_3''),
                       (''properties'', PyDict [(''description'', PyStr ''<description for column_1>'')])]]),
           (''properties'', PyDict [(''description'', PyStr ''<description for model>'')])]]"




section \<open>Notions used to state the properties of \<^verbatim>\<open>picked_models\<close>\<close>

text \<open>
  An entity of a schema descriptor: a dictionary with the keys \<^verbatim>\<open>name\<close>,
  \<^verbatim>\<open>columns\<close> and \<^verbatim>\<open>properties\<close> (and perhaps others).
\<close>

definition is_entity :: "pyval \<Rightarrow> bool" where
  "is_entity m =
     (case m of
        PyDict d \<Rightarrow> {''name'', ''columns'', ''properties''} \<subseteq> fst ` set d
      | _ \<Rightarrow> False)"

text \<open>
  The selection as the specification words it: the entities whose name is among the
  selected names, in the order of the schema, each reduced to its name, columns and
  properties.
\<close>

definition entity_field :: "pyval \<Rightarrow> string \<Rightarrow> pyval" where
  "entity_field m k = (case m of PyDict d \<Rightarrow> dict_get d k | _ \<Rightarrow> PyNone)"

definition simplified :: "pyval \<Rightarrow> pyval" where
  "simplified m =
     PyDict [(''name'', entity_field m ''name''),
             (''columns'', entity_field m ''columns''),
             (''properties'', entity_field m ''properties'')]"

definition selected_entities_spec :: "pyval list \<Rightarrow> string list \<Rightarrow> pyval list" where
  "selected_entities_spec ms names =
     map simplified (filter (\<lambda>m. in_str_list (entity_field m ''name'') names) ms)"

text \<open>A schema descriptor with three entities, used as an example.\<close>

definition example_mdl :: pydict where
  "example_mdl =
     [(''catalog'', PyStr ''shop''),
      (''models'',
       PyList
         [PyDict [(''name'', PyStr ''orders''),
                  (''columns'', PyList [PyDict [(''name'', PyStr ''id''), (''type'', PyStr ''int'')]]),
                  (''properties'', PyDict []),
                  (''primaryKey'', PyStr ''id'')],
          PyDict [(''name'', PyStr ''products''),
                  (''columns'', PyList []),
                  (''properties'', PyDict [(''displayName'', PyStr ''Products'')])],
          PyDict [(''name'', PyStr ''customers''),
                  (''columns'', PyList []),
                  (''properties'', PyDict [])]])]"

definition example_models :: "pyval list" where
  "example_models = (case dict_get example_mdl ''models'' of PyList ms \<Rightarrow> ms | _ \<Rightarrow> [])"

section \<open>Example components\<close>

text \<open>
  A prompt builder that renders the user prompt, and a generator whose every call fails;
  its state counts the calls made.
\<close>

definition example_builder :: "pyval list \<Rightarrow> string \<Rightarrow> pyerr + pydict" where
  "example_builder picked user_prompt =
     Inr [(''prompt'', PyStr (''User's prompt: '' @ user_prompt))]"

definition failing_generator :: "nat \<Rightarrow> pyval \<Rightarrow> (pyerr + pydict) \<times> nat" where
  "failing_generator calls p = (Inl (External ''provider unavailable''), Suc calls)"

definition failing_components :: "nat components" where
  "failing_components = \<lparr>prompt_builder = example_builder, generator = failing_generator\<rparr>"

section \<open>\<^verbatim>\<open>picked_models\<close> on a store of objects\<close>

text \<open>
  Lists and dictionaries are objects: the schema descriptor that \<^verbatim>\<open>picked_models\<close> is
  given is shared with its caller, and the dictionaries it returns share the columns and
  properties of the entities. To say what the call does to objects that exist already,
  the store is made explicit: a heap is the list of the objects allocated so far, an
  address is an index into it, and a value is immutable data or the address of an object.
\<close>

datatype hval = HNone | HBool bool | HInt int | HFloat rat | HStr string | HRef nat

datatype hobj = HList "hval list" | HDict "(string \<times> hval) list"

type_synonym heap = "hobj list"

text \<open>
  What an operation ends with when it returns no value: it raises, or it was given an
  address at which the heap has no object (which no Python program can come by).
\<close>

datatype fault = Raises pyerr | NoObject

definition heap_at :: "heap \<Rightarrow> nat \<Rightarrow> hobj option" where
  "heap_at h a = (if a < length h then Some (h ! a) else None)"

text \<open>A new object is put at the next free address.\<close>

definition alloc :: "heap \<Rightarrow> hobj \<Rightarrow> nat \<times> heap" where
  "alloc h obj = (length h, h @ [obj])"

text \<open>\<^verbatim>\<open>list.append\<close>, the one write of a list comprehension, to the list under construction.\<close>

definition list_append :: "heap \<Rightarrow> nat \<Rightarrow> hval \<Rightarrow> heap" where
  "list_append h r x =
     (case heap_at h r of
        Some (HList xs) \<Rightarrow> h[r := HList (xs @ [x])]
      | _ \<Rightarrow> h)"

text \<open>Subscription by a string, iteration and membership, reading the heap.\<close>

fun h_getitem_str :: "heap \<Rightarrow> hval \<Rightarrow> string \<Rightarrow> fault + hval" where
  "h_getitem_str h (HRef a) k =
     (case heap_at h a of
        None \<Rightarrow> Inl NoObject
      | Some (HDict d) \<Rightarrow>
          (case map_of d k of None \<Rightarrow> Inl (Raises (KeyError k)) | Some v \<Rightarrow> Inr v)
      | Some (HList xs) \<Rightarrow> Inl (Raises TypeError))"
| "h_getitem_str h _ k = Inl (Raises TypeError)"

fun h_iter :: "heap \<Rightarrow> hval \<Rightarrow> fault + hval list" where
  "h_iter h (HRef a) =
     (case heap_at h a of
        None \<Rightarrow> Inl NoObject
      | Some (HList xs) \<Rightarrow> Inr xs
      | Some (HDict d) \<Rightarrow> Inr (map (\<lambda>kv. HStr (fst kv)) d))"
| "h_iter h (HStr s) = Inr (map (\<lambda>c. HStr [c]) s)"
| "h_iter h _ = Inl (Raises TypeError)"

fun h_in_str_list :: "hval \<Rightarrow> string list \<Rightarrow> bool" where
  "h_in_str_list (HStr s) names = (s \<in> set names)"
| "h_in_str_list _ names = False"

text \<open>\<^verbatim>\<open>extract\<close> reads three items of the model and allocates the dictionary it returns.\<close>

definition h_extract :: "heap \<Rightarrow> hval \<Rightarrow> (fault + hval) \<times> heap" where
  "h_extract h model =
     (case h_getitem_str h model ''name'' of
        Inl e \<Rightarrow> (Inl e, h)
      | Inr n \<Rightarrow>
          (case h_getitem_str h model ''columns'' of
             Inl e \<Rightarrow> (Inl e, h)
           | Inr c \<Rightarrow>
               (case h_getitem_str h model ''properties'' of
                  Inl e \<Rightarrow> (Inl e, h)
                | Inr p \<Rightarrow>
                    (case alloc h (HDict [(''name'', n), (''columns'', c), (''properties'', p)]) of
                       (a, h') \<Rightarrow> (Inr (HRef a), h')))))"

text \<open>
  The body of the list comprehension, with the address \<open>r\<close> of the list under
  construction: each selected model is extracted and appended. The models iterated over
  are those read from the list when the iteration begins; the writes of the loop go to
  new objects only, so the list iterated over is the same throughout.
\<close>

fun h_pick :: "string list \<Rightarrow> nat \<Rightarrow> heap \<Rightarrow> hval list \<Rightarrow> fault option \<times> heap" where
  "h_pick selected_models r h [] = (None, h)"
| "h_pick selected_models r h (model # rest) =
     (case h_getitem_str h model ''name'' of
        Inl e \<Rightarrow> (Some e, h)
      | Inr n \<Rightarrow>
          if h_in_str_list n selected_models then
            (case h_extract h model of
               (Inl e, h') \<Rightarrow> (Some e, h')
             | (Inr x, h') \<Rightarrow> h_pick selected_models r (list_append h' r x) rest)
          else h_pick selected_models r h rest)"

text \<open>
  \<^verbatim>\<open>picked_models\<close>, given the address of \<^verbatim>\<open>mdl\<close>: the models are looked up and an
  iterator is made, then the result list is allocated and filled.
\<close>

definition h_picked_models :: "heap \<Rightarrow> nat \<Rightarrow> string list \<Rightarrow> (fault + hval) \<times> heap" where
  "h_picked_models h mdl selected_models =
     (case h_getitem_str h (HRef mdl) ''models'' of
        Inl e \<Rightarrow> (Inl e, h)
      | Inr models \<Rightarrow>
          (case h_iter h models of
             Inl e \<Rightarrow> (Inl e, h)
           | Inr ms \<Rightarrow>
               (case alloc h (HList []) of
                  (r, h1) \<Rightarrow>
                    (case h_pick selected_models r h1 ms of
                       (Some e, h2) \<Rightarrow> (Inl e, h2)
                     | (None, h2) \<Rightarrow> (Inr (HRef r), h2)))))"

section \<open>What a heap value stands for\<close>

text \<open>
  The value of the previous sections that a heap value stands for, as a relation: data
  stands for itself, an address for the list or dictionary found there. \<open>A\<close> is the set
  of addresses that may be followed.
\<close>

inductive denotes_on :: "nat set \<Rightarrow> heap \<Rightarrow> hval \<Rightarrow> pyval \<Rightarrow> bool"
  for A :: "nat set" and h :: heap where
  d_none: "denotes_on A h HNone PyNone"
| d_bool: "denotes_on A h (HBool b) (PyBool b)"
| d_int: "denotes_on A h (HInt i) (PyInt i)"
| d_float: "denotes_on A h (HFloat r) (PyFloat r)"
| d_str: "denotes_on A h (HStr s) (PyStr s)"
| d_list: "a \<in> A \<Longrightarrow> heap_at h a = Some (HList xs) \<Longrightarrow> list_all2 (denotes_on A h) xs vs
           \<Longrightarrow> denotes_on A h (HRef a) (PyList vs)"
| d_dict: "a \<in> A \<Longrightarrow> heap_at h a = Some (HDict d)
           \<Longrightarrow> list_all2 (\<lambda>e f. fst e = fst f \<and> denotes_on A h (snd e) (snd f)) d kvs
           \<Longrightarrow> denotes_on A h (HRef a) (PyDict kvs)"

abbreviation denotes :: "heap \<Rightarrow> hval \<Rightarrow> pyval \<Rightarrow> bool" where
  "denotes \<equiv> denotes_on UNIV"

text \<open>Every object that \<open>h\<close> has at an address of \<open>A\<close> is there in \<open>h'\<close>.\<close>

definition keeps :: "nat set \<Rightarrow> heap \<Rightarrow> heap \<Rightarrow> bool" where
  "keeps A h h' \<longleftrightarrow> (\<forall>a\<in>A. \<forall>obj. heap_at h a = Some obj \<longrightarrow> heap_at h' a = Some obj)"

text \<open>
  A heap with a schema descriptor at address 0, whose two entities share their columns and
  their properties.
\<close>

definition example_heap :: heap where
  "example_heap =
     [HDict [(''models'', HRef 1)],
      HList [HRef 2, HRef 5],
      HDict [(''name'', HStr ''orders''), (''columns'', HRef 3), (''properties'', HRef 4)],
      HList [],
      HDict [],
      HDict [(''name'', HStr ''products''), (''columns'', HRef 3), (''properties'', HRef 4)]]"

section \<open>Whitespace normalization\<close>

lemma is_space_space: "is_space (CHR '' '')"
  by (simp add: is_space_def)

lemma is_space_newline: "is_space (CHR 0x0A)"
  by (simp add: is_space_def)

lemma no_space_Nil: "no_space []"
  by (simp add: no_space_def)

lemma no_space_snoc: "no_space w \<Longrightarrow> \<not> is_space c \<Longrightarrow> no_space (w @ [c])"
  by (simp add: no_space_def)

text \<open>Every word that \<open>split_from\<close> returns is a word, if the one in progress is.\<close>

lemma split_from_words:
  "no_space w \<Longrightarrow> u \<in> set (split_from w s) \<Longrightarrow> is_word u"
proof (induction w s rule: split_from.induct)
  case (1 w)
  then show ?case by (cases "w = []") (simp_all add: is_word_def)
next
  case (2 w c cs)
  show ?case
  proof (cases "is_space c")
    case False
    with 2(3)[OF False no_space_snoc[OF 2(4) False]] 2(5) show ?thesis by simp
  next
    case True
    show ?thesis
    proof (cases "w = []")
      case w: True
      with 2(1)[OF True w no_space_Nil] 2(5) True show ?thesis by simp
    next
      case w: False
      from 2(5) True w have "u = w \<or> u \<in> set (split_from [] cs)" by simp
      then show ?thesis
      proof
        assume "u = w"
        with w 2(4) show ?thesis by (simp add: is_word_def)
      next
        assume "u \<in> set (split_from [] cs)"
        then show ?thesis by (rule 2(2)[OF True w no_space_Nil])
      qed
    qed
  qed
qed

lemma split_ws_words: "list_all is_word (split_ws s)"
  unfolding split_ws_def list_all_iff
  using split_from_words [OF no_space_Nil] by blast

text \<open>Reading on over characters that are no whitespace only extends the word.\<close>

lemma split_from_no_space:
  "no_space u \<Longrightarrow> split_from w (u @ s) = split_from (w @ u) s"
  by (induction u arbitrary: w) (simp_all add: no_space_def)

text \<open>Splitting what was joined gives the words back.\<close>

lemma split_from_join:
  "list_all is_word ws \<Longrightarrow> split_from [] (join_space ws) = ws"
proof (induction ws rule: join_space.induct)
  case 1
  then show ?case by simp
next
  case (2 w)
  then have "no_space w" "w \<noteq> []" by (simp_all add: is_word_def)
  then show ?case
    using split_from_no_space [of w "[]" "[]"] by simp
next
  case (3 w v ws)
  then have w: "no_space w" "w \<noteq> []" by (simp_all add: is_word_def)
  from 3 have ih: "split_from [] (join_space (v # ws)) = v # ws" by simp
  let ?r = "join_space (v # ws)"
  have "split_from [] (join_space (w # v # ws)) = split_from [] (w @ CHR '' '' # ?r)"
    by (simp only: join_space.simps)
  also have "\<dots> = split_from ([] @ w) (CHR '' '' # ?r)"
    by (rule split_from_no_space [OF w(1)])
  also have "\<dots> = w # split_from [] ?r"
    using w(2) by (simp only: append_Nil split_from.simps is_space_space if_True if_False)
  finally show ?case by (simp only: ih)
qed

lemma join_space_no_newline:
  "list_all is_word ws \<Longrightarrow> CHR 0x0A \<notin> set (join_space ws)"
  by (induction ws rule: join_space.induct)
     (auto simp: is_word_def no_space_def is_space_newline)

lemma replace_newlines_id:
  "CHR 0x0A \<notin> set s \<Longrightarrow> replace_newlines s = s"
  by (induction s) (auto simp: replace_newlines_def)

text \<open>
  Claim C5. The whitespace normalization of \<^verbatim>\<open>normalize\<close> (newlines replaced by spaces,
  then runs of whitespace collapsed to single spaces) is idempotent: normalizing a
  normalized string returns it unchanged.
\<close>

theorem collapse_ws_idempotent: "collapse_ws (collapse_ws text) = collapse_ws text"
proof -
  let ?ws = "split_ws (replace_newlines text)"
  have ok: "list_all is_word ?ws" by (rule split_ws_words)
  have "replace_newlines (join_space ?ws) = join_space ?ws"
    by (rule replace_newlines_id [OF join_space_no_newline [OF ok]])
  moreover have "split_ws (join_space ?ws) = ?ws"
    unfolding split_ws_def [of "join_space ?ws"] by (rule split_from_join [OF ok])
  ultimately show ?thesis by (simp add: collapse_ws_def)
qed

section \<open>The reply parser \<^verbatim>\<open>post_process\<close>\<close>

text \<open>What \<open>post_process\<close> does once the first reply is known to be a string.\<close>

lemma post_process_reply:
  "getitem_zero (dict_get g ''replies'') = Inr (PyStr text) \<Longrightarrow>
   post_process loads g =
     (fst (normalize_text loads text),
      case getitem_str (snd (normalize_text loads text)) ''models'' of
        Inl e \<Rightarrow> Inl e
      | Inr models \<Rightarrow>
          (case py_iter models of Inl e \<Rightarrow> Inl e | Inr ms \<Rightarrow> index_by_name [] ms))"
  by (simp add: post_process_def split: prod.splits)

lemma normalize_failure:
  "loads (strip (collapse_ws text)) = Inl msg \<Longrightarrow>
   normalize_text loads text = ([''Error decoding JSON: '' @ msg], PyDict [])"
  by (simp add: normalize_text_def)

lemma normalize_success:
  "loads (strip (collapse_ws text)) = Inr v \<Longrightarrow> normalize_text loads text = ([], v)"
  by (simp add: normalize_text_def)

lemma post_process_decode_error:
  assumes "getitem_zero (dict_get g ''replies'') = Inr (PyStr text)"
    and "loads (strip (collapse_ws text)) = Inl msg"
  shows "post_process loads g = ([''Error decoding JSON: '' @ msg], Inl (KeyError ''models''))"
  using assms(2) by (simp add: post_process_reply [OF assms(1)] normalize_failure dict_item_def)

text \<open>
  Claim C1. For a reply envelope whose first candidate is not a JSON document,
  \<^verbatim>\<open>post_process\<close> is to return the empty mapping with no exception escaping. The code
  does not: \<^verbatim>\<open>normalize\<close> recovers with an empty dictionary, and the next line
  subscripts it with \<^verbatim>\<open>"models"\<close>. At the reply \<^verbatim>\<open>not json\<close> the call raises
  \<^verbatim>\<open>KeyError\<close>. (By \<open>post_process_decode_error\<close> this is so for every reader and
  every text the reader rejects.)
\<close>

theorem post_process_not_json_raises:
  "snd (post_process json_loads [(''replies'', PyList [PyStr ''not json''])])
     = Inl (KeyError ''models'')"
  by code_simp

text \<open>
  Claim C4. \<^verbatim>\<open>post_process\<close> uses the first candidate only: two envelopes whose
  \<^verbatim>\<open>replies\<close> lists start with the same candidate give the same output, whatever
  follows it and whatever else the envelopes hold.
\<close>

theorem post_process_first_reply_only:
  assumes "dict_get g1 ''replies'' = PyList (reply # rest1)"
    and "dict_get g2 ''replies'' = PyList (reply # rest2)"
  shows "post_process loads g1 = post_process loads g2"
  by (simp add: post_process_def assms)

theorem post_process_first_reply_only_witness:
  \<open>dict_get [(''replies'', PyList [PyStr ''{"models":[]}''])] ''replies''
     = PyList (PyStr ''{"models":[]}'' # [])
   \<and> dict_get [(''meta'', PyList []), (''replies'', PyList [PyStr ''{"models":[]}'', PyStr ''x'', PyInt 3])] ''replies''
     = PyList (PyStr ''{"models":[]}'' # [PyStr ''x'', PyInt 3])
   \<and> post_process json_loads [(''replies'', PyList [PyStr ''{"models":[]}''])]
     = post_process json_loads
         [(''meta'', PyList []), (''replies'', PyList [PyStr ''{"models":[]}'', PyStr ''x'', PyInt 3])]
   \<and> post_process json_loads [(''replies'', PyList [PyStr ''{"models":[]}''])] = ([], Inr [])\<close>
proof -
  let ?r = \<open>PyStr ''{"models":[]}''\<close>
  have a: "dict_get [(''replies'', PyList [?r])] ''replies'' = PyList (?r # [])"
    by (simp add: dict_get_def)
  have b: "dict_get [(''meta'', PyList []), (''replies'', PyList [?r, PyStr ''x'', PyInt 3])] ''replies''
     = PyList (?r # [PyStr ''x'', PyInt 3])"
    by (simp add: dict_get_def)
  have c: "post_process json_loads [(''replies'', PyList [?r])] = ([], Inr [])"
    by code_simp
  from post_process_first_reply_only [OF a b, of json_loads] a b c show ?thesis
    by simp
qed

text \<open>
  Claim C9. For an envelope without the key \<^verbatim>\<open>replies\<close>, or with an empty
  \<^verbatim>\<open>replies\<close> list, \<^verbatim>\<open>post_process\<close> raises (a \<^verbatim>\<open>TypeError\<close> for the missing key,
  since \<^verbatim>\<open>None\<close> cannot be subscripted, an \<^verbatim>\<open>IndexError\<close> for the empty list) and
  returns no mapping.
\<close>

theorem post_process_no_replies_raises:
  assumes "map_of g ''replies'' = None \<or> map_of g ''replies'' = Some (PyList [])"
  shows "post_process loads g =
           ([], Inl (if map_of g ''replies'' = None then TypeError else IndexError))"
  using assms by (auto simp: post_process_def dict_get_def)

theorem post_process_no_replies_raises_witness:
  "(map_of [(''meta'', PyList [])] ''replies'' = None
      \<or> map_of [(''meta'', PyList [])] ''replies'' = Some (PyList []))
   \<and> post_process json_loads [(''meta'', PyList [])] = ([], Inl TypeError)
   \<and> (map_of [(''replies'', PyList [])] ''replies'' = None
      \<or> map_of [(''replies'', PyList [])] ''replies'' = Some (PyList []))
   \<and> post_process json_loads [(''replies'', PyList [])] = ([], Inl IndexError)"
proof -
  have a: "map_of [(''meta'', PyList [])] ''replies'' = None" by simp
  have b: "map_of [(''replies'', PyList [])] ''replies'' = Some (PyList [])" by simp
  from post_process_no_replies_raises [OF disjI1 [OF a], of json_loads]
       post_process_no_replies_raises [OF disjI2 [OF b], of json_loads] a b
  show ?thesis by simp
qed


text \<open>
  Claim C10. For an envelope whose first candidate parses as JSON that is not a mapping
  with a key \<^verbatim>\<open>models\<close>, \<^verbatim>\<open>post_process\<close> raises and returns no mapping: a
  \<^verbatim>\<open>KeyError\<close> for a mapping without the key, a \<^verbatim>\<open>TypeError\<close> for every other
  value. The witness is the top-level array that the system prompt asks for.
\<close>

theorem post_process_without_models_raises:
  assumes "getitem_zero (dict_get g ''replies'') = Inr (PyStr text)"
    and "loads (strip (collapse_ws text)) = Inr v"
    and "\<not> has_models v"
  shows "post_process loads g =
           ([], Inl (case v of PyDict d \<Rightarrow> KeyError ''models'' | _ \<Rightarrow> TypeError))"
proof (cases v)
  case (PyDict d)
  with assms(3) have "map_of d ''models'' = None"
    by (simp add: map_of_eq_None_iff)
  with PyDict assms(2) show ?thesis
    by (simp add: post_process_reply [OF assms(1)] normalize_success dict_item_def)
qed (use assms(2) in \<open>simp_all add: post_process_reply [OF assms(1)] normalize_success\<close>)

theorem post_process_without_models_raises_witness:
  "getitem_zero (dict_get [(''replies'', PyList [PyStr output_format_example])] ''replies'')
     = Inr (PyStr output_format_example)
   \<and> json_loads (strip (collapse_ws output_format_example)) = Inr output_format_value
   \<and> \<not> has_models output_format_value
   \<and> post_process json_loads [(''replies'', PyList [PyStr output_format_example])]
       = ([], Inl TypeError)"
proof -
  let ?g = "[(''replies'', PyList [PyStr output_format_example])]"
  have a: "getitem_zero (dict_get ?g ''replies'') = Inr (PyStr output_format_example)"
    by (simp add: dict_get_def)
  have b: "json_loads (strip (collapse_ws output_format_example)) = Inr output_format_value"
    by code_simp
  have c: "\<not> has_models output_format_value"
    by (simp add: output_format_value_def)
  from post_process_without_models_raises [where loads = json_loads, OF a b c] a b c show ?thesis
    by (simp add: output_format_value_def)
qed

subsection \<open>The dictionary that is built\<close>


















section \<open>The model selector \<^verbatim>\<open>picked_models\<close>\<close>

text \<open>On an entity the three subscripts of \<^verbatim>\<open>extract\<close> and of the filter succeed.\<close>

lemma entity_fields:
  assumes "is_entity m"
  shows "getitem_str m k =
           (if k \<in> {''name'', ''columns'', ''properties''} then Inr (entity_field m k)
            else getitem_str m k)"
proof (cases m)
  case (PyDict d)
  with assms have keys: "{''name'', ''columns'', ''properties''} \<subseteq> fst ` set d"
    by (simp add: is_entity_def)
  have "map_of d k \<noteq> None" if "k \<in> {''name'', ''columns'', ''properties''}"
    using that keys by (auto simp: map_of_eq_None_iff)
  then show ?thesis
    by (auto simp: PyDict entity_field_def dict_item_def dict_get_def split: option.splits)
qed (use assms in \<open>simp_all add: is_entity_def\<close>)

lemma entity_name: "is_entity m \<Longrightarrow> getitem_str m ''name'' = Inr (entity_field m ''name'')"
  using entity_fields [of m "''name''"] by simp

lemma entity_extract: "is_entity m \<Longrightarrow> extract_model m = Inr (simplified m)"
  using entity_fields [of m "''name''"] entity_fields [of m "''columns''"]
    entity_fields [of m "''properties''"]
  by (simp add: extract_model_def simplified_def)

lemma pick_entities:
  "list_all is_entity ms \<Longrightarrow> pick names ms = Inr (selected_entities_spec ms names)"
proof (induction ms)
  case Nil
  show ?case by (simp add: selected_entities_spec_def)
next
  case (Cons m ms)
  then have m: "is_entity m" and ih: "pick names ms = Inr (selected_entities_spec ms names)"
    by simp_all
  show ?case
    by (simp add: entity_name [OF m] entity_extract [OF m] ih selected_entities_spec_def)
qed

lemma selected_none: "selected_entities_spec ms [] = []"
proof -
  have "\<not> in_str_list v []" for v by (cases v) simp_all
  then show ?thesis by (simp add: selected_entities_spec_def)
qed

lemma selected_absent:
  assumes "PyStr n \<notin> (\<lambda>m. entity_field m ''name'') ` set ms"
  shows "selected_entities_spec ms (n # names) = selected_entities_spec ms names"
proof -
  have "in_str_list (entity_field m ''name'') (n # names)
          = in_str_list (entity_field m ''name'') names" if "m \<in> set ms" for m
  proof (cases "entity_field m ''name''")
    case (PyStr s)
    with assms that have "s \<noteq> n" by force
    with PyStr show ?thesis by simp
  qed simp_all
  then have "filter (\<lambda>m. in_str_list (entity_field m ''name'') (n # names)) ms
           = filter (\<lambda>m. in_str_list (entity_field m ''name'') names) ms"
    by (simp cong: filter_cong)
  then show ?thesis by (simp add: selected_entities_spec_def)
qed

text \<open>
  Claim C2. For every schema descriptor (a mapping with a list of entities under
  \<^verbatim>\<open>models\<close>) and every selection list, \<^verbatim>\<open>picked_models\<close> returns exactly the
  entities whose name is in the selection, each reduced to the keys \<^verbatim>\<open>name\<close>,
  \<^verbatim>\<open>columns\<close>, \<^verbatim>\<open>properties\<close>, in the order of the schema; an empty selection gives
  the empty sequence, and a selected name that no entity has changes nothing and raises
  nothing.
\<close>

theorem picked_models_selects:
  assumes "map_of mdl ''models'' = Some (PyList ms)"
    and "list_all is_entity ms"
  shows "picked_models mdl names = Inr (selected_entities_spec ms names)
         \<and> picked_models mdl [] = Inr []
         \<and> (\<forall>n. PyStr n \<notin> (\<lambda>m. entity_field m ''name'') ` set ms
               \<longrightarrow> picked_models mdl (n # names) = picked_models mdl names)"
proof -
  have run: "picked_models mdl ns = Inr (selected_entities_spec ms ns)" for ns
    using assms(1) by (simp add: picked_models_def dict_item_def pick_entities [OF assms(2)])
  show ?thesis
    by (simp add: run selected_none selected_absent)
qed

theorem picked_models_selects_witness:
  "map_of example_mdl ''models'' = Some (PyList example_models)
   \<and> list_all is_entity example_models
   \<and> picked_models example_mdl [''orders'', ''customers'']
       = Inr [PyDict [(''name'', PyStr ''orders''),
                      (''columns'', PyList [PyDict [(''name'', PyStr ''id''), (''type'', PyStr ''int'')]]),
                      (''properties'', PyDict [])],
              PyDict [(''name'', PyStr ''customers''),
                      (''columns'', PyList []),
                      (''properties'', PyDict [])]]
   \<and> picked_models example_mdl [] = Inr []
   \<and> picked_models example_mdl [''invoices'', ''orders'', ''customers'']
       = picked_models example_mdl [''orders'', ''customers'']"
proof -
  have a: "map_of example_mdl ''models'' = Some (PyList example_models)"
    by (simp add: example_mdl_def example_models_def dict_get_def)
  have b: "list_all is_entity example_models"
    by (simp add: example_mdl_def example_models_def dict_get_def is_entity_def)
  have c: "PyStr ''invoices'' \<notin> (\<lambda>m. entity_field m ''name'') ` set example_models"
    by (simp add: example_mdl_def example_models_def dict_get_def entity_field_def)
  have d: "selected_entities_spec example_models [''orders'', ''customers'']
       = [PyDict [(''name'', PyStr ''orders''),
                      (''columns'', PyList [PyDict [(''name'', PyStr ''id''), (''type'', PyStr ''int'')]]),
                      (''properties'', PyDict [])],
              PyDict [(''name'', PyStr ''customers''),
                      (''columns'', PyList []),
                      (''properties'', PyDict [])]]"
    by code_simp
  from picked_models_selects [OF a b, of "[''orders'', ''customers'']"] c d a b
  show ?thesis by simp
qed

section \<open>Failure of the generation call\<close>

text \<open>
  Claim C6. If the call of the generator raises, the exception leaves \<^verbatim>\<open>generate\<close> and
  the pipeline as it is: the run ends with that exception and no result mapping, nothing
  but the line of \<^verbatim>\<open>run\<close> itself is logged (\<^verbatim>\<open>post_process\<close> is not reached), and the
  generator is left in the state after that one call, so it is not called again.
\<close>

theorem generate_failure_propagates:
  assumes "picked_models mdl selected_models = Inr picked"
    and "prompt_builder comps picked user_prompt = Inr p"
    and "generator comps g (dict_get p ''prompt'') = (Inl e, g')"
  shows "generate p (generator comps) g = (Inl e, g')
         \<and> run comps loads g user_prompt selected_models mdl
             = (([''Semantics Description Generation pipeline is running...''], Inl e), g')"
  using assms by (simp add: generate_def run_def prompt_def)

theorem generate_failure_propagates_witness:
  "picked_models example_mdl [''orders''] =
     Inr [PyDict [(''name'', PyStr ''orders''),
                  (''columns'', PyList [PyDict [(''name'', PyStr ''id''), (''type'', PyStr ''int'')]]),
                  (''properties'', PyDict [])]]
   \<and> prompt_builder failing_components
        [PyDict [(''name'', PyStr ''orders''),
                  (''columns'', PyList [PyDict [(''name'', PyStr ''id''), (''type'', PyStr ''int'')]]),
                  (''properties'', PyDict [])]] ''describe''
       = Inr [(''prompt'', PyStr ''User's prompt: describe'')]
   \<and> generator failing_components 0 (dict_get [(''prompt'', PyStr ''User's prompt: describe'')] ''prompt'')
       = (Inl (External ''provider unavailable''), 1)
   \<and> run failing_components json_loads 0 ''describe'' [''orders''] example_mdl
       = (([''Semantics Description Generation pipeline is running...''],
           Inl (External ''provider unavailable'')), 1)"
proof -
  let ?picked = "[PyDict [(''name'', PyStr ''orders''),
                  (''columns'', PyList [PyDict [(''name'', PyStr ''id''), (''type'', PyStr ''int'')]]),
                  (''properties'', PyDict [])]]"
  let ?p = "[(''prompt'', PyStr ''User's prompt: describe'')]"
  have a: "picked_models example_mdl [''orders''] = Inr ?picked"
    by code_simp
  have b: "prompt_builder failing_components ?picked ''describe'' = Inr ?p"
    by (simp add: failing_components_def example_builder_def)
  have c: "generator failing_components 0 (dict_get ?p ''prompt'')
             = (Inl (External ''provider unavailable''), 1)"
    by (simp add: failing_components_def failing_generator_def)
  from generate_failure_propagates [OF a b c, of json_loads] a b c show ?thesis
    by simp
qed

section \<open>\<^verbatim>\<open>picked_models\<close> leaves its input alone\<close>

text \<open>The writes of the loop are allocations and updates of the list under construction.\<close>

lemma prefix_update:
  assumes "prefix h0 h" and "length h0 \<le> r"
  shows "prefix h0 (h[r := obj])"
proof -
  from assms(1) obtain t where "h = h0 @ t" by (auto simp: prefix_def)
  with assms(2) have "h[r := obj] = h0 @ t[r - length h0 := obj]"
    by (simp add: list_update_append)
  then show ?thesis by simp
qed

lemma prefix_list_append:
  "prefix h0 h \<Longrightarrow> length h0 \<le> r \<Longrightarrow> prefix h0 (list_append h r x)"
  by (simp add: list_append_def prefix_update split: option.splits hobj.splits)

lemma prefix_extract: "prefix h0 h \<Longrightarrow> prefix h0 (snd (h_extract h model))"
  by (simp add: h_extract_def alloc_def split: sum.splits)

lemma prefix_pick:
  "prefix h0 h \<Longrightarrow> length h0 \<le> r \<Longrightarrow> prefix h0 (snd (h_pick names r h ms))"
proof (induction ms arbitrary: h)
  case Nil
  then show ?case by simp
next
  case (Cons m ms)
  show ?case
  proof (cases "h_getitem_str h m ''name''")
    case (Inl e)
    with Cons.prems show ?thesis by simp
  next
    case (Inr n)
    show ?thesis
    proof (cases "h_in_str_list n names")
      case False
      with Inr Cons show ?thesis by simp
    next
      case True
      obtain res h' where ex: "h_extract h m = (res, h')" by (cases "h_extract h m")
      from prefix_extract [OF Cons.prems(1), of m] ex have p: "prefix h0 h'" by simp
      show ?thesis
      proof (cases res)
        case (Inl e)
        with Inr True ex p show ?thesis by simp
      next
        case x: (Inr x)
        from Cons.IH [OF prefix_list_append [OF p Cons.prems(2)] Cons.prems(2)]
        show ?thesis using Inr True ex x by simp
      qed
    qed
  qed
qed

text \<open>The heap after a call extends the heap before it.\<close>

lemma h_picked_models_grows: "prefix h (snd (h_picked_models h mdl names))"
proof (cases "h_getitem_str h (HRef mdl) ''models''")
  case (Inl e)
  then show ?thesis by (simp add: h_picked_models_def)
next
  case (Inr models)
  show ?thesis
  proof (cases "h_iter h models")
    case (Inl e)
    with Inr show ?thesis by (simp add: h_picked_models_def)
  next
    case ms: (Inr ms)
    obtain res h2 where hp: "h_pick names (length h) (h @ [HList []]) ms = (res, h2)"
      by (cases "h_pick names (length h) (h @ [HList []]) ms")
    have "prefix h (snd (h_pick names (length h) (h @ [HList []]) ms))"
      by (rule prefix_pick) simp_all
    with hp have "prefix h h2" by simp
    with Inr ms hp show ?thesis
      by (cases res) (simp_all add: h_picked_models_def alloc_def del: h_getitem_str.simps)
  qed
qed

text \<open>
  Claim C8. \<^verbatim>\<open>picked_models\<close> has no side effect on its input: whatever the schema
  descriptor and the selection, and whether the call returns or raises, every object that
  was in the heap before the call (the descriptor, its list of models, every entity and
  all they refer to) is at its address, unchanged, after the call; the heap has only
  grown by the objects the call has made.
\<close>

theorem picked_models_frame: "prefix h (snd (h_picked_models h mdl names))"
  by (rule h_picked_models_grows)

section \<open>The two models of \<^verbatim>\<open>picked_models\<close> agree\<close>

text \<open>A denotation lasts while the objects it rests on do.\<close>

lemma denotes_on_transfer:
  assumes "denotes_on A h x v" and "A \<subseteq> B" and "keeps A h h'"
  shows "denotes_on B h' x v"
  using assms(1)
proof (induction rule: denotes_on.induct)
  case (d_list a xs vs)
  from d_list(3) have "list_all2 (denotes_on B h') xs vs"
    by (rule list_all2_mono) simp
  moreover from d_list(1,2) assms(3) have "heap_at h' a = Some (HList xs)"
    by (simp add: keeps_def)
  moreover from d_list(1) assms(2) have "a \<in> B" by blast
  ultimately show ?case by (intro denotes_on.d_list)
next
  case (d_dict a d kvs)
  from d_dict(3) have "list_all2 (\<lambda>e f. fst e = fst f \<and> denotes_on B h' (snd e) (snd f)) d kvs"
    by (rule list_all2_mono) simp
  moreover from d_dict(1,2) assms(3) have "heap_at h' a = Some (HDict d)"
    by (simp add: keeps_def)
  moreover from d_dict(1) assms(2) have "a \<in> B" by blast
  ultimately show ?case by (intro denotes_on.d_dict)
qed (auto intro: denotes_on.intros)

lemma denotes_on_allocated:
  assumes "denotes_on A h x v"
  shows "denotes_on (A \<inter> {a. a < length h}) h x v"
  using assms
proof (induction rule: denotes_on.induct)
  case (d_list a xs vs)
  from d_list(3) have "list_all2 (denotes_on (A \<inter> {a. a < length h}) h) xs vs"
    by (rule list_all2_mono) simp
  moreover from d_list(2) have "a < length h" by (simp add: heap_at_def split: if_splits)
  ultimately show ?case using d_list(1,2) by (intro denotes_on.d_list) simp_all
next
  case (d_dict a d kvs)
  from d_dict(3)
  have "list_all2 (\<lambda>e f. fst e = fst f \<and> denotes_on (A \<inter> {a. a < length h}) h (snd e) (snd f)) d kvs"
    by (rule list_all2_mono) simp
  moreover from d_dict(2) have "a < length h" by (simp add: heap_at_def split: if_splits)
  ultimately show ?case using d_dict(1,2) by (intro denotes_on.d_dict) simp_all
qed (auto intro: denotes_on.intros)

lemma keeps_refl: "keeps A h h"
  by (simp add: keeps_def)

lemma keeps_grow: "keeps A h (h @ t)"
  by (auto simp: keeps_def heap_at_def nth_append split: if_splits)

lemma keeps_update: "r \<notin> A \<Longrightarrow> keeps A h (h[r := obj])"
proof -
  assume r: "r \<notin> A"
  have "(h[r := obj]) ! a = h ! a" if "a \<in> A" for a
    using that r by (intro nth_list_update_neq) blast
  then show ?thesis
    by (simp add: keeps_def heap_at_def split: if_splits)
qed

lemma keeps_trans: "keeps A h h' \<Longrightarrow> keeps A h' h'' \<Longrightarrow> keeps A h h''"
  by (simp add: keeps_def)

text \<open>Reading the heap gives what reading the value gives.\<close>

lemma map_of_denotes:
  "list_all2 (\<lambda>e f. fst e = fst f \<and> denotes_on A h (snd e) (snd f)) d kvs \<Longrightarrow>
   rel_option (denotes_on A h) (map_of d k) (map_of kvs k)"
  by (induction rule: list_all2_induct) auto

lemma getitem_denotes:
  assumes "denotes_on A h x v"
  shows "rel_sum (\<lambda>f e. f = Raises e) (denotes_on A h) (h_getitem_str h x k) (getitem_str v k)"
  using assms
proof (cases rule: denotes_on.cases)
  case (d_dict a d kvs)
  from map_of_denotes [OF d_dict(5), of k] d_dict(1-4) show ?thesis
    by (cases "map_of d k"; cases "map_of kvs k") (simp_all add: dict_item_def)
qed simp_all

lemma iter_denotes:
  assumes "denotes_on A h x v"
  shows "rel_sum (\<lambda>f e. f = Raises e) (list_all2 (denotes_on A h)) (h_iter h x) (py_iter v)"
  using assms
proof (cases rule: denotes_on.cases)
  case (d_dict a d kvs)
  from d_dict(5)
  have "list_all2 (denotes_on A h) (map (\<lambda>kv. HStr (fst kv)) d) (map (\<lambda>kv. PyStr (fst kv)) kvs)"
    by (induction rule: list_all2_induct) (auto intro: denotes_on.intros)
  with d_dict show ?thesis by simp
next
  case (d_str s)
  have "list_all2 (denotes_on A h) (map (\<lambda>c. HStr [c]) s) (map (\<lambda>c. PyStr [c]) s)"
    by (induction s) (auto intro: denotes_on.intros)
  with d_str show ?thesis by simp
qed simp_all

lemma in_str_list_denotes:
  "denotes_on A h x v \<Longrightarrow> h_in_str_list x names = in_str_list v names"
  by (induction rule: denotes_on.induct) simp_all

lemma extract_denotes:
  assumes "denotes_on A h m v" and "length h \<in> A"
  shows "case extract_model v of
           Inl e \<Rightarrow> h_extract h m = (Inl (Raises e), h)
         | Inr v' \<Rightarrow> (\<exists>obj. h_extract h m = (Inr (HRef (length h)), h @ [obj])
                       \<and> denotes_on A (h @ [obj]) (HRef (length h)) v')"
proof -
  note g = getitem_denotes [OF assms(1)]
  show ?thesis
  proof (cases "getitem_str v ''name''")
    case (Inl e)
    with g [of "''name''"] show ?thesis
      by (cases "h_getitem_str h m ''name''") (simp_all add: extract_model_def h_extract_def)
  next
    case n: (Inr vn)
    with g [of "''name''"] obtain xn
      where xn: "h_getitem_str h m ''name'' = Inr xn" "denotes_on A h xn vn"
      by (cases "h_getitem_str h m ''name''") simp_all
    show ?thesis
    proof (cases "getitem_str v ''columns''")
      case (Inl e)
      with g [of "''columns''"] n xn show ?thesis
        by (cases "h_getitem_str h m ''columns''") (simp_all add: extract_model_def h_extract_def)
    next
      case c: (Inr vc)
      with g [of "''columns''"] obtain xc
        where xc: "h_getitem_str h m ''columns'' = Inr xc" "denotes_on A h xc vc"
        by (cases "h_getitem_str h m ''columns''") simp_all
      show ?thesis
      proof (cases "getitem_str v ''properties''")
        case (Inl e)
        with g [of "''properties''"] n xn c xc show ?thesis
          by (cases "h_getitem_str h m ''properties''")
             (simp_all add: extract_model_def h_extract_def)
      next
        case p: (Inr vp)
        with g [of "''properties''"] obtain xp
          where xp: "h_getitem_str h m ''properties'' = Inr xp" "denotes_on A h xp vp"
          by (cases "h_getitem_str h m ''properties''") simp_all
        let ?obj = "HDict [(''name'', xn), (''columns'', xc), (''properties'', xp)]"
        let ?h = "h @ [?obj]"
        note tr = denotes_on_transfer [OF _ subset_refl keeps_grow [of A h "[?obj]"]]
        have at: "heap_at ?h (length h) = Some ?obj" by (simp add: heap_at_def)
        have "denotes_on A ?h (HRef (length h))
                (PyDict [(''name'', vn), (''columns'', vc), (''properties'', vp)])"
          using tr [OF xn(2)] tr [OF xc(2)] tr [OF xp(2)]
          by (intro denotes_on.d_dict [OF assms(2) at]) simp
        with n c p xn xc xp show ?thesis
          by (simp add: extract_model_def h_extract_def alloc_def)
      qed
    qed
  qed
qed

text \<open>The loop: \<open>accv\<close> is what has been appended to the list at \<open>r\<close> so far.\<close>

lemma raises_same:
  "rel_sum (\<lambda>f e. f = Raises e) S x (Inl e) \<Longrightarrow> x = Inl (Raises e)"
  by (cases x) simp_all

lemma returns_related: "rel_sum R S x (Inr v) \<Longrightarrow> \<exists>y. x = Inr y \<and> S y v"
  by (cases x) simp_all

lemma list_append_at:
  assumes "heap_at h r = Some (HList acc)"
  shows "list_append h r x = h[r := HList (acc @ [x])]"
    and "heap_at (list_append h r x) r = Some (HList (acc @ [x]))"
  using assms by (simp_all add: list_append_def heap_at_def split: if_splits)

lemma pick_denotes:
  assumes "r < length h"
    and "heap_at h r = Some (HList acc)"
    and "list_all2 (denotes_on {a. a \<noteq> r} h) acc accv"
    and "list_all2 (denotes_on {a. a \<noteq> r} h) ms vs"
  shows "case pick names vs of
           Inl e \<Rightarrow> fst (h_pick names r h ms) = Some (Raises e)
         | Inr out \<Rightarrow>
             (\<exists>h' acc'. h_pick names r h ms = (None, h')
                \<and> heap_at h' r = Some (HList acc')
                \<and> list_all2 (denotes_on {a. a \<noteq> r} h') acc' (accv @ out))"
  using assms
proof (induction ms arbitrary: vs h acc accv)
  case Nil
  then show ?case by simp
next
  case (Cons m ms vs0)
  let ?A = "{a. a \<noteq> r}"
  from Cons.prems(4) obtain v vs where vs0: "vs0 = v # vs"
    and mv: "denotes_on ?A h m v" and rest: "list_all2 (denotes_on ?A h) ms vs"
    by (auto simp: list_all2_Cons1)
  note g = getitem_denotes [OF mv, of "''name''"]
  show ?case
  proof (cases "getitem_str v ''name''")
    case (Inl e)
    from g [unfolded Inl] have "h_getitem_str h m ''name'' = Inl (Raises e)"
      by (rule raises_same)
    with Inl show ?thesis by (simp add: vs0)
  next
    case n: (Inr vn)
    from returns_related [OF g [unfolded n]]
    obtain xn where xn: "h_getitem_str h m ''name'' = Inr xn" "denotes_on ?A h xn vn"
      by blast
    have sel: "h_in_str_list xn names = in_str_list vn names"
      by (rule in_str_list_denotes [OF xn(2)])
    show ?thesis
    proof (cases "in_str_list vn names")
      case False
      have run: "h_pick names r h (m # ms) = h_pick names r h ms"
        using xn sel False by simp
      have pure: "pick names (v # vs) = pick names vs"
        using n False by simp
      from Cons.IH [OF Cons.prems(1,2,3) rest] show ?thesis
        by (simp only: vs0 run pure)
    next
      case True
      from Cons.prems(1) have fresh: "length h \<in> ?A" by simp
      note ex = extract_denotes [OF mv fresh]
      show ?thesis
      proof (cases "extract_model v")
        case (Inl e)
        with ex n xn sel True show ?thesis by (simp add: vs0)
      next
        case x: (Inr v')
        with ex obtain obj where obj: "h_extract h m = (Inr (HRef (length h)), h @ [obj])"
          and new: "denotes_on ?A (h @ [obj]) (HRef (length h)) v'"
          by auto
        let ?h1 = "h @ [obj]"
        let ?h2 = "list_append ?h1 r (HRef (length h))"
        from Cons.prems(1,2) have at1: "heap_at ?h1 r = Some (HList acc)"
          by (simp add: heap_at_def nth_append)
        note h2 = list_append_at [OF at1, of "HRef (length h)"]
        have k1: "keeps ?A h ?h1" by (rule keeps_grow)
        have k2: "keeps ?A ?h1 ?h2" unfolding h2(1) by (rule keeps_update) simp
        note to2 = denotes_on_transfer [OF _ subset_refl keeps_trans [OF k1 k2]]
        have len: "r < length ?h2" using Cons.prems(1) by (simp add: h2(1))
        have acc2: "list_all2 (denotes_on ?A ?h2) (acc @ [HRef (length h)]) (accv @ [v'])"
        proof (rule list_all2_appendI)
          show "list_all2 (denotes_on ?A ?h2) acc accv"
            using Cons.prems(3) by (rule list_all2_mono) (rule to2)
          show "list_all2 (denotes_on ?A ?h2) [HRef (length h)] [v']"
            using denotes_on_transfer [OF new subset_refl k2] by simp
        qed
        have ms2: "list_all2 (denotes_on ?A ?h2) ms vs"
          using rest by (rule list_all2_mono) (rule to2)
        note ih = Cons.IH [OF len h2(2) acc2 ms2]
        have run: "h_pick names r h (m # ms) = h_pick names r ?h2 ms"
          using xn sel True obj by simp
        show ?thesis
        proof (cases "pick names vs")
          case (Inl e)
          with ih n True x run show ?thesis by (simp add: vs0)
        next
          case (Inr out)
          with ih n True x run show ?thesis by (simp add: vs0)
        qed
      qed
    qed
  qed
qed

text \<open>
  On a heap in which the address \<open>mdl\<close> stands for the dictionary \<open>M\<close>, the call on the
  heap raises what \<open>picked_models M\<close> raises, or returns the address of a list that stands
  for what \<open>picked_models M\<close> returns.
\<close>

theorem h_picked_models_refines:
  assumes "denotes h (HRef mdl) (PyDict M)"
  shows "case picked_models M names of
           Inl e \<Rightarrow> fst (h_picked_models h mdl names) = Inl (Raises e)
         | Inr out \<Rightarrow>
             (\<exists>r h'. h_picked_models h mdl names = (Inr (HRef r), h')
                \<and> denotes h' (HRef r) (PyList out))"
proof -
  let ?r = "length h"
  let ?A = "{a. a \<noteq> ?r}"
  have old: "denotes_on ?A h x v" if "denotes h x v" for x v
    using denotes_on_allocated [OF that]
    by (rule denotes_on_transfer) (auto simp: keeps_refl)
  note g = getitem_denotes [OF old [OF assms], of "''models''"]
  show ?thesis
  proof (cases "dict_item M ''models''")
    case (Inl e)
    with g show ?thesis
      by (cases "h_getitem_str h (HRef mdl) ''models''")
         (simp_all add: picked_models_def h_picked_models_def del: h_getitem_str.simps)
  next
    case m: (Inr vms)
    with g obtain xms where xms: "h_getitem_str h (HRef mdl) ''models'' = Inr xms"
      "denotes_on ?A h xms vms"
      by (cases "h_getitem_str h (HRef mdl) ''models''") simp_all
    note it = iter_denotes [OF xms(2)]
    show ?thesis
    proof (cases "py_iter vms")
      case (Inl e)
      with it m xms(1) show ?thesis
        by (cases "h_iter h xms")
           (simp_all add: picked_models_def h_picked_models_def del: h_getitem_str.simps)
    next
      case vs: (Inr vs)
      with it obtain ms where ms: "h_iter h xms = Inr ms" "list_all2 (denotes_on ?A h) ms vs"
        by (cases "h_iter h xms") simp_all
      let ?h1 = "h @ [HList []]"
      have at: "heap_at ?h1 ?r = Some (HList [])" by (simp add: heap_at_def)
      have ms1: "list_all2 (denotes_on ?A ?h1) ms vs"
        using ms(2) by (rule list_all2_mono)
          (rule denotes_on_transfer [OF _ subset_refl keeps_grow])
      have len: "?r < length ?h1" by simp
      have acc0: "list_all2 (denotes_on ?A ?h1) [] []" by simp
      note p = pick_denotes [OF len at acc0 ms1, of names]
      have unfold: "h_picked_models h mdl names =
          (case h_pick names ?r ?h1 ms of
             (Some e, h2) \<Rightarrow> (Inl e, h2)
           | (None, h2) \<Rightarrow> (Inr (HRef ?r), h2))"
        using xms(1) ms(1) by (simp add: h_picked_models_def alloc_def del: h_getitem_str.simps)
      have pure: "picked_models M names = pick names vs"
        using m vs by (simp add: picked_models_def)
      show ?thesis
      proof (cases "pick names vs")
        case (Inl e)
        with p have "fst (h_pick names ?r ?h1 ms) = Some (Raises e)" by simp
        then show ?thesis
          unfolding unfold pure Inl by (cases "h_pick names ?r ?h1 ms") simp
      next
        case (Inr out)
        with p obtain h' acc' where run: "h_pick names ?r ?h1 ms = (None, h')"
          and at': "heap_at h' ?r = Some (HList acc')"
          and acc': "list_all2 (denotes_on ?A h') acc' out"
          by auto
        from acc' have "list_all2 (denotes h') acc' out"
          by (rule list_all2_mono) (rule denotes_on_transfer, auto simp: keeps_refl)
        with at' have "denotes h' (HRef ?r) (PyList out)"
          by (intro denotes_on.d_list) simp_all
        with run show ?thesis unfolding unfold pure Inr by simp
      qed
    qed
  qed
qed

text \<open>What the input stood for before the call, it stands for after it.\<close>

lemma keeps_prefix: "prefix h h' \<Longrightarrow> keeps A h h'"
  by (auto simp: prefix_def keeps_grow)

lemma h_picked_models_input_denotes:
  assumes "denotes h x v"
  shows "denotes (snd (h_picked_models h mdl names)) x v"
  using assms subset_refl keeps_prefix [OF h_picked_models_grows]
  by (rule denotes_on_transfer)

text \<open>
  On the example heap the call allocates the result list and one dictionary, which shares
  the columns and properties of the entity.
\<close>

lemma h_picked_models_example:
  "h_picked_models example_heap 0 [''orders''] =
     (Inr (HRef 6),
      example_heap @
        [HList [HRef 7],
         HDict [(''name'', HStr ''orders''), (''columns'', HRef 3), (''properties'', HRef 4)]])"
  by code_simp

end
